theory Spec2Isabelle
  imports Main
begin

section \<open>Text as the interpreter sees it\<close>

text \<open>
  The engine of \<^verbatim>\<open>telegram_media_sync.py\<close> is the coroutine \<^verbatim>\<open>download_media\<close>.
  It formats message IDs with an f-string, parses the ledger file line by line and
  matches file names by prefix, so the embedding starts with the string operations
  it relies on. Text is a list of 8-bit characters, read as the code points below 256,
  and a file is given by the text that reading it yields.
\<close>

definition digit_char :: "nat \<Rightarrow> char" where
  "digit_char d = ''0123456789'' ! d"

text \<open>\<^verbatim>\<open>str(n)\<close> for a natural number: the decimal digits, most significant first.\<close>

fun str_nat :: "nat \<Rightarrow> string" where
  "str_nat n = (if n < 10 then [digit_char n] else str_nat (n div 10) @ [digit_char (n mod 10)])"

declare str_nat.simps [simp del]

text \<open>\<^verbatim>\<open>f"{message.id}"\<close> and \<^verbatim>\<open>str(message.id)\<close>: Python integers are unbounded and signed.\<close>

definition str_int :: "int \<Rightarrow> string" where
  "str_int i = (if i < 0 then CHR ''-'' # str_nat (nat (- i)) else str_nat (nat i))"

definition LF :: char where "LF = CHR 0x0A"
definition CR :: char where "CR = CHR 0x0D"

text \<open>\<^verbatim>\<open>str.isspace\<close> on one character: the white space that \<^verbatim>\<open>strip()\<close> removes.\<close>

definition py_isspace :: "char \<Rightarrow> bool" where
  "py_isspace c \<longleftrightarrow> c \<in> set [CHR 0x09, CHR 0x0A, CHR 0x0B, CHR 0x0C, CHR 0x0D,
                              CHR 0x1C, CHR 0x1D, CHR 0x1E, CHR 0x1F, CHR 0x20,
                              CHR 0x85, CHR 0xA0]"

definition py_strip :: "string \<Rightarrow> string" where
  "py_strip s = rev (dropWhile py_isspace (rev (dropWhile py_isspace s)))"

text \<open>The ten decimal digits, which are what \<^verbatim>\<open>int()\<close> accepts in a digit string.\<close>

definition is_decimal :: "char \<Rightarrow> bool" where
  "is_decimal c \<longleftrightarrow> c \<in> set ''0123456789''"

text \<open>
  \<^verbatim>\<open>str.isdigit\<close> is true of a non-empty string whose characters all have the digit
  property. Below code point 256 those are the decimal digits and the superscripts
  one, two and three (0xB9, 0xB2, 0xB3).
\<close>

definition is_digit_char :: "char \<Rightarrow> bool" where
  "is_digit_char c \<longleftrightarrow> is_decimal c \<or> c \<in> set [CHR 0xB2, CHR 0xB3, CHR 0xB9]"

definition py_isdigit :: "string \<Rightarrow> bool" where
  "py_isdigit s \<longleftrightarrow> s \<noteq> [] \<and> list_all is_digit_char s"

definition digit_val :: "char \<Rightarrow> int" where
  "digit_val c = of_char c - 48"

text \<open>
  Exceptions: Telethon's \<^verbatim>\<open>FloodWaitError\<close> with its \<^verbatim>\<open>seconds\<close>, and any other
  \<^verbatim>\<open>Exception\<close> with the text that \<^verbatim>\<open>str(e)\<close> gives.
\<close>

datatype exn = FloodWaitError int | Exception string

text \<open>
  \<^verbatim>\<open>int(s)\<close> as the loader calls it, on a string that passed \<^verbatim>\<open>isdigit()\<close>.
  Decimal digits give their value. A character that is not a decimal digit raises
  \<^verbatim>\<open>ValueError\<close>, and so does a string of more digits than the interpreter converts:
  CPython's limit \<^verbatim>\<open>sys.int_max_str_digits\<close> is 4300 unless the user sets another,
  and leading zeros count. The message of the exception is not modelled.
\<close>

datatype value_error = ValueError

definition int_max_str_digits :: nat where
  "int_max_str_digits = 4300"

definition decimal_value :: "string \<Rightarrow> int" where
  "decimal_value s = foldl (\<lambda>n c. 10 * n + digit_val c) 0 s"

definition py_int :: "string \<Rightarrow> value_error + int" where
  "py_int s = (if s \<noteq> [] \<and> list_all is_decimal s \<and> length s \<le> int_max_str_digits
               then Inr (decimal_value s)
               else Inl ValueError)"

text \<open>
  Reading a file opened in text mode: \<^verbatim>\<open>\r\n\<close> and a lone \<^verbatim>\<open>\r\<close> both arrive as
  \<^verbatim>\<open>\n\<close>, and iterating the file yields the lines with their terminator.
\<close>

fun universal_newlines :: "string \<Rightarrow> string" where
  "universal_newlines [] = []"
| "universal_newlines [c] = (if c = CR then [LF] else [c])"
| "universal_newlines (c # d # cs) =
     (if c = CR \<and> d = LF then LF # universal_newlines cs
      else if c = CR then LF # universal_newlines (d # cs)
      else c # universal_newlines (d # cs))"

fun readlines :: "string \<Rightarrow> string list" where
  "readlines [] = []"
| "readlines (c # cs) =
     (if c = LF then [LF] # readlines cs
      else (case readlines cs of [] \<Rightarrow> [[c]] | l # ls \<Rightarrow> (c # l) # ls))"

text \<open>\<^verbatim>\<open>os.path.basename\<close>: what follows the last slash.\<close>

definition basename :: "string \<Rightarrow> string" where
  "basename p = rev (takeWhile (\<lambda>c. c \<noteq> CHR ''/'') (rev p))"

text \<open>\<^verbatim>\<open>str.startswith\<close>.\<close>

definition startswith :: "string \<Rightarrow> string \<Rightarrow> bool" where
  "startswith s p \<longleftrightarrow> take (length p) s = p"

section \<open>The engine's data\<close>

text \<open>
  A message as the engine reads it: \<^verbatim>\<open>message.id\<close> and whether \<^verbatim>\<open>message.media\<close>
  is truthy.
\<close>

record message =
  message_id :: int
  media :: bool

text \<open>
  The media fetcher \<^verbatim>\<open>client.download_media(message, file=channel_dir)\<close> is an
  external collaborator: it returns the path of the file it saved, or raises. The
  embedding takes it as a parameter that gives, for a message ID and the number of the
  call for that message (0 for the first attempt, 1 for the retry), what the call does.
\<close>

datatype outcome = Path string | Raise exn

type_synonym client = "int \<Rightarrow> nat \<Rightarrow> outcome"

text \<open>What the run does to the outside, in order: lines printed, fetcher calls, sleeps.\<close>

datatype event = Print string | DownloadMedia int | Sleep int

text \<open>
  The append handle \<^verbatim>\<open>record_fp = open(record_file, 'a')\<close>, a buffered text file
  object. \<open>buffer\<close> is the log of the strings passed to \<^verbatim>\<open>write\<close> since the
  handle was opened, in order. \<open>file_content\<close> is the content of the file at the last
  \<^verbatim>\<open>open\<close> or \<^verbatim>\<open>close\<close>: what the file held when the handle was opened
  and, once the handle is closed, what it holds, all the writes appended. It is not the
  content of the file while the handle is open: the runtime moves the written text to
  the file when it chooses to, and \<open>file_may_hold\<close> below says what the file can
  hold then.
\<close>

record file_handle =
  file_content :: string
  buffer :: "string list"
  closed :: bool

definition open_append :: "string option \<Rightarrow> file_handle" where
  "open_append old =
     \<lparr>file_content = (case old of None \<Rightarrow> [] | Some txt \<Rightarrow> txt), buffer = [], closed = False\<rparr>"

text \<open>
  \<^verbatim>\<open>record_fp.write(s)\<close> adds the string to the log, and says nothing of the file.
  \<^verbatim>\<open>record_fp.close()\<close> puts everything written into the file.
\<close>

definition fp_write :: "file_handle \<Rightarrow> string \<Rightarrow> file_handle" where
  "fp_write fp s = fp\<lparr>buffer := buffer fp @ [s]\<rparr>"

definition fp_close :: "file_handle \<Rightarrow> file_handle" where
  "fp_close fp = fp\<lparr>file_content := file_content fp @ concat (buffer fp), buffer := [], closed := True\<rparr>"

text \<open>
  What the file can hold, given the handle. The engine never calls \<^verbatim>\<open>flush\<close>, so
  the runtime alone decides. The text layer of CPython keeps what is written until it
  amounts to its chunk size of 8192 bytes (the characters written here are one byte
  each): below that the file holds what it held at the last open or close. From then on
  the file holds that followed by a leading part of the written text; how long a part
  depends on the buffer sizes of the runtime and is left open.
\<close>

definition chunk_size :: nat where
  "chunk_size = 8192"

definition file_may_hold :: "file_handle \<Rightarrow> string \<Rightarrow> bool" where
  "file_may_hold fp c \<longleftrightarrow>
     (let written = concat (buffer fp) in
      if length written < chunk_size then c = file_content fp
      else list_ex (\<lambda>k. c = file_content fp @ take k written) [0..<Suc (length written)])"

text \<open>
  The local variables of \<^verbatim>\<open>download_media\<close> (\<open>downloaded_ids\<close>, \<open>existing_files\<close>,
  \<open>count\<close>, \<open>record_fp\<close>), the trace of events, and the media files that are in the
  channel directory.
\<close>

record state =
  downloaded_ids :: "int set"
  existing_files :: "string list"
  count :: nat
  record_fp :: file_handle
  events :: "event list"
  disk_files :: "string list"

text \<open>The channel directory between runs: the ledger file, if there is one, and the media files.\<close>

record channel_dir =
  record_file :: "string option"
  media_files :: "string list"

definition listdir :: "channel_dir \<Rightarrow> string list" where
  "listdir d = (case record_file d of None \<Rightarrow> [] | Some txt \<Rightarrow> [''.downloaded_ids.txt'']) @ media_files d"

text \<open>
  What a piece of the function does: it goes on in a new state, or an exception leaves
  it in the state reached.
\<close>

datatype 'a result = Normal 'a | Raised exn 'a

fun result_state :: "'a result \<Rightarrow> 'a" where
  "result_state (Normal s) = s"
| "result_state (Raised e s) = s"

section \<open>Loading the ledger\<close>

text \<open>
  \<^verbatim>\<open>{int(line.strip()) for line in rf if line.strip().isdigit()}\<close>: the comprehension
  stops at the first exception.
\<close>

fun load_lines :: "string list \<Rightarrow> value_error + int set" where
  "load_lines [] = Inr {}"
| "load_lines (l # ls) =
     (if py_isdigit (py_strip l)
      then (case py_int (py_strip l) of
              Inl e \<Rightarrow> Inl e
            | Inr i \<Rightarrow> (case load_lines ls of Inl e \<Rightarrow> Inl e | Inr S \<Rightarrow> Inr (insert i S)))
      else load_lines ls)"

text \<open>Lines 78 to 81: the set stays empty when the file does not exist.\<close>

definition load_ids :: "string option \<Rightarrow> value_error + int set" where
  "load_ids rf = (case rf of None \<Rightarrow> Inr {}
                  | Some txt \<Rightarrow> load_lines (readlines (universal_newlines txt)))"

section \<open>The loop body\<close>

text \<open>Line 98: a file named \<^verbatim>\<open>"<id>."\<close> and more, or exactly \<^verbatim>\<open>"<id>"\<close>.\<close>

definition file_exists :: "int \<Rightarrow> string list \<Rightarrow> bool" where
  "file_exists i fs = list_ex (\<lambda>f. startswith f (str_int i @ ''.'') \<or> f = str_int i) fs"

definition emit :: "event list \<Rightarrow> state \<Rightarrow> state" where
  "emit es st = st\<lparr>events := events st @ es\<rparr>"

text \<open>
  One call of the fetcher: the call is recorded, and a call that returns a path has
  saved a file of that name in the channel directory.
\<close>

definition call_download_media :: "client \<Rightarrow> nat \<Rightarrow> int \<Rightarrow> state \<Rightarrow> outcome \<times> state" where
  "call_download_media client k i st =
     (let st' = emit [DownloadMedia i] st in
      case client i k of
        Path p \<Rightarrow> (Path p, st'\<lparr>disk_files := List.insert (basename p) (disk_files st')\<rparr>)
      | Raise e \<Rightarrow> (Raise e, st'))"

text \<open>
  Lines 106 to 111 and again 116 to 120, which differ in the printed label only: count,
  print, write the ID to the ledger, add it to the set, extend the file list.
\<close>

definition saved :: "string \<Rightarrow> int \<Rightarrow> string \<Rightarrow> state \<Rightarrow> state" where
  "saved label i path st =
     st\<lparr>count := count st + 1,
        events := events st @ [Print (''['' @ str_nat (count st + 1) @ ''] '' @ label @ path)],
        record_fp := fp_write (record_fp st) (str_int i),
        downloaded_ids := insert i (downloaded_ids st),
        existing_files := existing_files st @ [basename path]\<rparr>"

text \<open>
  Lines 90 to 122 for one message. An exception raised inside the handler of
  \<^verbatim>\<open>except errors.FloodWaitError\<close> is not caught by the \<^verbatim>\<open>except Exception\<close>
  clause of the same \<^verbatim>\<open>try\<close>: it leaves the loop and the function.
\<close>

definition download_media_step :: "client \<Rightarrow> state \<Rightarrow> message \<Rightarrow> state result" where
  "download_media_step client st m =
     (let i = message_id m in
      if \<not> media m then Normal st
      else if i \<in> downloaded_ids st then
        Normal (emit [Print (''[SKIP] Message '' @ str_int i @ '' already downloaded (recorded).'')] st)
      else if file_exists i (existing_files st) then
        Normal ((emit [Print (''[SKIP] File for message '' @ str_int i @ '' already exists.'')] st)
                 \<lparr>downloaded_ids := insert i (downloaded_ids st),
                  record_fp := fp_write (record_fp st) (str_int i)\<rparr>)
      else
        (case call_download_media client 0 i st of
           (Path p, st1) \<Rightarrow> Normal (saved ''Saved: '' i p st1)
         | (Raise (FloodWaitError secs), st1) \<Rightarrow>
             (let st2 = emit [Print (''Rate limit reached, waiting '' @ str_int secs @ '' seconds...''),
                              Sleep secs] st1
              in case call_download_media client 1 i st2 of
                   (Path p, st3) \<Rightarrow> Normal (saved ''Saved after wait: '' i p st3)
                 | (Raise e, st3) \<Rightarrow> Raised e st3)
         | (Raise (Exception txt), st1) \<Rightarrow>
             Normal (emit [Print (''Error downloading message '' @ str_int i @ '': '' @ txt)] st1)))"

section \<open>The run\<close>

text \<open>
  \<^verbatim>\<open>async for message in client.iter_messages(entity, limit=limit)\<close>: the message
  source is the list of the messages it yields, the limit already applied.
\<close>

fun download_media_loop :: "client \<Rightarrow> state \<Rightarrow> message list \<Rightarrow> state result" where
  "download_media_loop client st [] = Normal st"
| "download_media_loop client st (m # ms) =
     (case download_media_step client st m of
        Normal st' \<Rightarrow> download_media_loop client st' ms
      | Raised e st' \<Rightarrow> Raised e st')"

text \<open>Lines 78 to 88: the state in which the loop starts.\<close>

definition initial_state :: "int \<Rightarrow> string \<Rightarrow> channel_dir \<Rightarrow> int set \<Rightarrow> state" where
  "initial_state channel_id dir_path d ids =
     \<lparr>downloaded_ids = ids,
      existing_files = listdir d,
      count = 0,
      record_fp = open_append (record_file d),
      events = [Print (''Starting download for channel ID '' @ str_int channel_id @ '' into ''
                       @ dir_path @ ''...'')],
      disk_files = media_files d\<rparr>"

text \<open>Lines 123 and 124, reached only when the loop ends without an exception.\<close>

definition finish :: "state \<Rightarrow> state" where
  "finish st = emit [Print (''Done. Total new files downloaded: '' @ str_nat (count st))]
                 (st\<lparr>record_fp := fp_close (record_fp st)\<rparr>)"

text \<open>
  \<^verbatim>\<open>download_media\<close> from line 76 on, the entity resolved and the directory made.
  \<open>LoadError\<close>: the exception left the function before the handle was opened.
\<close>

datatype run = LoadError value_error | RunError exn state | Completed state

definition download_media :: "client \<Rightarrow> int \<Rightarrow> string \<Rightarrow> channel_dir \<Rightarrow> message list \<Rightarrow> run" where
  "download_media client channel_id dir_path d msgs =
     (case load_ids (record_file d) of
        Inl e \<Rightarrow> LoadError e
      | Inr ids \<Rightarrow>
          (case download_media_loop client (initial_state channel_id dir_path d ids) msgs of
             Raised e st \<Rightarrow> RunError e st
           | Normal st \<Rightarrow> Completed (finish st)))"

text \<open>The channel directory that a completed run leaves behind.\<close>

definition dir_after :: "state \<Rightarrow> channel_dir" where
  "dir_after st = \<lparr>record_file = Some (file_content (record_fp st)), media_files = disk_files st\<rparr>"

text \<open>
  What holds of the ledger handle while the loop runs: no string is in its buffer twice,
  and every string in it prints an ID of the in-memory set.
\<close>

definition ledger_inv :: "state \<Rightarrow> bool" where
  "ledger_inv st \<longleftrightarrow>
     distinct (buffer (record_fp st)) \<and> set (buffer (record_fp st)) \<subseteq> str_int ` downloaded_ids st"

text \<open>The ledger text that the loader is written for: each ID on a line of its own.\<close>

definition one_per_line :: "int list \<Rightarrow> string" where
  "one_per_line ids = concat (map (\<lambda>i. str_int i @ [LF]) ids)"

section \<open>Concrete runs\<close>

text \<open>
  The channel of the specification's scenario: message 1 without media, messages 2 and 3
  with media, an empty channel directory and no ledger. The fetchers: one that names
  each file after the message ID, one that names it after the media, one that answers
  the first call with a rate limit and then saves, and one whose retry for message 3
  fails; for that one the channel has a message 4 after message 3.
\<close>

definition scenario_messages :: "message list" where
  "scenario_messages = [\<lparr>message_id = 1, media = False\<rparr>, \<lparr>message_id = 2, media = True\<rparr>,
                        \<lparr>message_id = 3, media = True\<rparr>]"

definition empty_dir :: channel_dir where
  "empty_dir = \<lparr>record_file = None, media_files = []\<rparr>"

definition id_named :: client where
  "id_named i k = Path (''downloads/77/'' @ str_int i @ ''.jpg'')"

definition media_named :: client where
  "media_named i k = Path (''downloads/77/photo_'' @ str_int i @ ''.jpg'')"

definition flood_then_saved :: client where
  "flood_then_saved i k = (if k = 0 then Raise (FloodWaitError 5) else id_named i k)"

definition flood_then_error :: client where
  "flood_then_error i k =
     (if i = 3 then (if k = 0 then Raise (FloodWaitError 5) else Raise (Exception ''timed out''))
      else id_named i k)"

definition longer_messages :: "message list" where
  "longer_messages = scenario_messages @ [\<lparr>message_id = 4, media = True\<rparr>]"

text \<open>
  A channel directory that holds an artifact for message 2 and no ledger, and the state
  of a run in it once message 3 has been fetched.
\<close>

definition artifact_dir :: channel_dir where
  "artifact_dir = \<lparr>record_file = None, media_files = [''2.jpg'']\<rparr>"

definition after_message_3 :: state where
  "after_message_3 = result_state (download_media_loop id_named (initial_state 77 ''downloads/77'' artifact_dir {})
                                     [\<lparr>message_id = 3, media = True\<rparr>])"

text \<open>
  The states in which the runs of the scenario end: the state of the loop after message 2
  and at its end, the first and the second run with files named after the ID, the first
  and the second run with files named after the media, and the run whose retry fails.
\<close>

definition after_message_2 :: state where
  "after_message_2 =
     \<lparr>downloaded_ids = {2}, existing_files = [''2.jpg''], count = 1,
      record_fp = \<lparr>file_content = [], buffer = [''2''], closed = False\<rparr>,
      events = [Print ''Starting download for channel ID 77 into downloads/77...'',
                DownloadMedia 2, Print ''[1] Saved: downloads/77/2.jpg''],
      disk_files = [''2.jpg'']\<rparr>"

definition loop_end :: state where
  "loop_end =
     \<lparr>downloaded_ids = {2, 3}, existing_files = [''2.jpg'', ''3.jpg''], count = 2,
      record_fp = \<lparr>file_content = [], buffer = [''2'', ''3''], closed = False\<rparr>,
      events = [Print ''Starting download for channel ID 77 into downloads/77...'',
                DownloadMedia 2, Print ''[1] Saved: downloads/77/2.jpg'',
                DownloadMedia 3, Print ''[2] Saved: downloads/77/3.jpg''],
      disk_files = [''3.jpg'', ''2.jpg'']\<rparr>"

definition first_end :: state where
  "first_end =
     \<lparr>downloaded_ids = {2, 3}, existing_files = [''2.jpg'', ''3.jpg''], count = 2,
      record_fp = \<lparr>file_content = ''23'', buffer = [], closed = True\<rparr>,
      events = [Print ''Starting download for channel ID 77 into downloads/77...'',
                DownloadMedia 2, Print ''[1] Saved: downloads/77/2.jpg'',
                DownloadMedia 3, Print ''[2] Saved: downloads/77/3.jpg'',
                Print ''Done. Total new files downloaded: 2''],
      disk_files = [''3.jpg'', ''2.jpg'']\<rparr>"

definition second_end :: state where
  "second_end =
     \<lparr>downloaded_ids = {2, 3, 23},
      existing_files = [''.downloaded_ids.txt'', ''3.jpg'', ''2.jpg''], count = 0,
      record_fp = \<lparr>file_content = ''2323'', buffer = [], closed = True\<rparr>,
      events = [Print ''Starting download for channel ID 77 into downloads/77...'',
                Print ''[SKIP] File for message 2 already exists.'',
                Print ''[SKIP] File for message 3 already exists.'',
                Print ''Done. Total new files downloaded: 0''],
      disk_files = [''3.jpg'', ''2.jpg'']\<rparr>"

definition media_first_end :: state where
  "media_first_end =
     \<lparr>downloaded_ids = {2, 3}, existing_files = [''photo_2.jpg'', ''photo_3.jpg''], count = 2,
      record_fp = \<lparr>file_content = ''23'', buffer = [], closed = True\<rparr>,
      events = [Print ''Starting download for channel ID 77 into downloads/77...'',
                DownloadMedia 2, Print ''[1] Saved: downloads/77/photo_2.jpg'',
                DownloadMedia 3, Print ''[2] Saved: downloads/77/photo_3.jpg'',
                Print ''Done. Total new files downloaded: 2''],
      disk_files = [''photo_3.jpg'', ''photo_2.jpg'']\<rparr>"

definition media_second_end :: state where
  "media_second_end =
     \<lparr>downloaded_ids = {2, 3, 23},
      existing_files = [''.downloaded_ids.txt'', ''photo_3.jpg'', ''photo_2.jpg'',
                        ''photo_2.jpg'', ''photo_3.jpg''],
      count = 2,
      record_fp = \<lparr>file_content = ''2323'', buffer = [], closed = True\<rparr>,
      events = [Print ''Starting download for channel ID 77 into downloads/77...'',
                DownloadMedia 2, Print ''[1] Saved: downloads/77/photo_2.jpg'',
                DownloadMedia 3, Print ''[2] Saved: downloads/77/photo_3.jpg'',
                Print ''Done. Total new files downloaded: 2''],
      disk_files = [''photo_3.jpg'', ''photo_2.jpg'']\<rparr>"

definition retry_failure_end :: state where
  "retry_failure_end =
     \<lparr>downloaded_ids = {2}, existing_files = [''2.jpg''], count = 1,
      record_fp = \<lparr>file_content = [], buffer = [''2''], closed = False\<rparr>,
      events = [Print ''Starting download for channel ID 77 into downloads/77...'',
                DownloadMedia 2, Print ''[1] Saved: downloads/77/2.jpg'',
                DownloadMedia 3, Print ''Rate limit reached, waiting 5 seconds...'',
                Sleep 5, DownloadMedia 3],
      disk_files = [''2.jpg'']\<rparr>"

section \<open>Facts about the text operations\<close>

lemma digit_char_decimal: "d < 10 \<Longrightarrow> is_decimal (digit_char d)"
proof -
  assume "d < 10"
  then have "d \<in> {0, 1, 2, 3, 4, 5, 6, 7, 8, 9}" by auto
  then show ?thesis by (auto simp: is_decimal_def digit_char_def)
qed

lemma digit_val_digit_char: "d < 10 \<Longrightarrow> digit_val (digit_char d) = int d"
proof -
  assume "d < 10"
  then have "d \<in> {0, 1, 2, 3, 4, 5, 6, 7, 8, 9}" by auto
  then show ?thesis by (auto simp: digit_val_def digit_char_def)
qed

lemma str_nat_nonempty: "str_nat n \<noteq> []"
  by (subst str_nat.simps) simp

lemma str_nat_decimal: "list_all is_decimal (str_nat n)"
proof (induction n rule: str_nat.induct)
  case (1 n)
  show ?case
  proof (cases "n < 10")
    case True
    then show ?thesis by (subst str_nat.simps) (simp add: digit_char_decimal)
  next
    case False
    with 1 show ?thesis by (subst str_nat.simps) (simp add: digit_char_decimal)
  qed
qed

lemma decimal_value_snoc: "decimal_value (s @ [c]) = 10 * decimal_value s + digit_val c"
  by (simp add: decimal_value_def)

text \<open>Reading back what \<open>str_nat\<close> printed gives the number.\<close>

lemma decimal_value_str_nat: "decimal_value (str_nat n) = int n"
proof (induction n rule: str_nat.induct)
  case (1 n)
  show ?case
  proof (cases "n < 10")
    case True
    then show ?thesis
      by (subst str_nat.simps) (simp add: decimal_value_def digit_val_digit_char)
  next
    case False
    with 1 have "decimal_value (str_nat (n div 10)) = int (n div 10)" by simp
    with False show ?thesis
      by (subst str_nat.simps) (simp add: decimal_value_snoc digit_val_digit_char zdiv_int zmod_int)
  qed
qed

lemma py_int_str_nat: "length (str_nat n) \<le> int_max_str_digits \<Longrightarrow> py_int (str_nat n) = Inr (int n)"
  by (simp add: py_int_def str_nat_nonempty str_nat_decimal decimal_value_str_nat)

lemma str_nat_inj: "str_nat m = str_nat n \<Longrightarrow> m = n"
proof -
  assume "str_nat m = str_nat n"
  then have "decimal_value (str_nat m) = decimal_value (str_nat n)" by (rule arg_cong)
  then show "m = n" by (simp only: decimal_value_str_nat int_int_eq)
qed

lemma hd_str_nat_decimal: "is_decimal (hd (str_nat n))"
  using str_nat_decimal [of n] str_nat_nonempty [of n]
  by (cases "str_nat n") simp_all

text \<open>Two integers never print alike: the sign tells the negative ones apart.\<close>

lemma str_int_inj: "str_int i = str_int j \<Longrightarrow> i = j"
proof -
  assume eq: "str_int i = str_int j"
  have minus: "\<not> is_decimal (CHR ''-'')" by (simp add: is_decimal_def)
  show ?thesis
  proof (cases "i < 0"; cases "j < 0")
    assume "i < 0" "j < 0"
    with eq have "str_nat (nat (- i)) = str_nat (nat (- j))" by (simp add: str_int_def)
    then have "nat (- i) = nat (- j)" by (rule str_nat_inj)
    with \<open>i < 0\<close> \<open>j < 0\<close> show ?thesis by simp
  next
    assume "i < 0" "\<not> j < 0"
    with eq have "CHR ''-'' # str_nat (nat (- i)) = str_nat (nat j)" by (simp add: str_int_def)
    then have "hd (str_nat (nat j)) = CHR ''-''" by (metis list.sel(1))
    with hd_str_nat_decimal [of "nat j"] minus show ?thesis by simp
  next
    assume "\<not> i < 0" "j < 0"
    with eq have "CHR ''-'' # str_nat (nat (- j)) = str_nat (nat i)" by (simp add: str_int_def)
    then have "hd (str_nat (nat i)) = CHR ''-''" by (metis list.sel(1))
    with hd_str_nat_decimal [of "nat i"] minus show ?thesis by simp
  next
    assume "\<not> i < 0" "\<not> j < 0"
    with eq have "str_nat (nat i) = str_nat (nat j)" by (simp add: str_int_def)
    then have "nat i = nat j" by (rule str_nat_inj)
    with \<open>\<not> i < 0\<close> \<open>\<not> j < 0\<close> show ?thesis by simp
  qed
qed

section \<open>Facts about the loader\<close>


lemma set_py_strip: "set (py_strip s) \<subseteq> set s"
proof -
  have "set (py_strip s) = set (dropWhile py_isspace (rev (dropWhile py_isspace s)))"
    by (simp add: py_strip_def)
  also have "\<dots> \<subseteq> set (rev (dropWhile py_isspace s))" by (auto dest: set_dropWhileD)
  also have "\<dots> \<subseteq> set s" by (auto dest: set_dropWhileD)
  finally show ?thesis .
qed



lemma set_universal_newlines: "set (universal_newlines s) \<subseteq> insert LF (set s)"
  by (induction s rule: universal_newlines.induct) auto

lemma concat_readlines: "concat (readlines s) = s"
  by (induction s) (auto split: list.splits)

lemma set_readlines: "l \<in> set (readlines s) \<Longrightarrow> set l \<subseteq> set s"
proof -
  assume "l \<in> set (readlines s)"
  then have "set l \<subseteq> set (concat (readlines s))" by auto
  then show ?thesis by (simp only: concat_readlines)
qed

lemma decimal_not_space: "is_decimal c \<Longrightarrow> \<not> py_isspace c"
  by (auto simp: is_decimal_def py_isspace_def)

lemma decimal_not_newline: "is_decimal c \<Longrightarrow> c \<noteq> LF \<and> c \<noteq> CR"
  by (auto simp: is_decimal_def LF_def CR_def)

lemma universal_newlines_id: "CR \<notin> set s \<Longrightarrow> universal_newlines s = s"
  by (induction s rule: universal_newlines.induct) auto

lemma readlines_line: "LF \<notin> set l \<Longrightarrow> readlines (l @ LF # rest) = (l @ [LF]) # readlines rest"
  by (induction l) auto

lemma py_strip_line:
  assumes "s \<noteq> []" "list_all is_decimal s"
  shows "py_strip (s @ [LF]) = s"
proof -
  from assms have "is_decimal (hd s)" and "is_decimal (last s)"
    by (simp_all add: list_all_iff)
  then have h: "\<not> py_isspace (hd s)" and l: "\<not> py_isspace (last s)"
    by (simp_all add: decimal_not_space)
  from assms(1) h have 1: "dropWhile py_isspace (s @ [LF]) = s @ [LF]"
    by (cases s) simp_all
  have sp: "py_isspace LF" by (simp add: py_isspace_def LF_def)
  from assms(1) l have "dropWhile py_isspace (rev s) = rev s"
    by (cases "rev s") (simp_all add: last_rev [symmetric] del: last_rev)
  with sp have 2: "dropWhile py_isspace (rev (s @ [LF])) = rev s" by simp
  show ?thesis by (simp only: py_strip_def 1 2 rev_rev_ident)
qed

lemma str_nat_line:
  "py_strip (str_nat n @ [LF]) = str_nat n \<and> py_isdigit (str_nat n) \<and> LF \<notin> set (str_nat n)
   \<and> CR \<notin> set (str_nat n)"
proof -
  have d: "list_all is_decimal (str_nat n)" by (rule str_nat_decimal)
  then have "py_isdigit (str_nat n)"
    by (auto simp: py_isdigit_def is_digit_char_def list_all_iff str_nat_nonempty)
  moreover from d have "LF \<notin> set (str_nat n) \<and> CR \<notin> set (str_nat n)"
    using decimal_not_newline by (auto simp: list_all_iff)
  ultimately show ?thesis using py_strip_line [OF str_nat_nonempty d] by simp
qed

lemma one_per_line_Cons: "one_per_line (i # ids) = str_int i @ LF # one_per_line ids"
  by (simp add: one_per_line_def)

lemma no_CR_one_per_line: "\<forall>i\<in>set ids. 0 \<le> i \<Longrightarrow> CR \<notin> set (one_per_line ids)"
  using str_nat_line by (induction ids) (auto simp: one_per_line_def str_int_def CR_def LF_def)

text \<open>
  A ledger with one non-negative ID on each line loads back as the set of those IDs, as
  long as no ID has more digits than \<open>py_int\<close> converts.
\<close>

lemma load_lines_one_per_line:
  "\<forall>i\<in>set ids. 0 \<le> i \<and> length (str_int i) \<le> int_max_str_digits \<Longrightarrow>
   load_lines (readlines (one_per_line ids)) = Inr (set ids)"
proof (induction ids)
  case Nil
  show ?case by (simp add: one_per_line_def)
next
  case (Cons i ids)
  then have i: "0 \<le> i" and len: "length (str_int i) \<le> int_max_str_digits"
    and IH: "load_lines (readlines (one_per_line ids)) = Inr (set ids)" by simp_all
  from i have s: "str_int i = str_nat (nat i)" by (simp add: str_int_def)
  with len have "py_int (str_nat (nat i)) = Inr (int (nat i))" by (simp add: py_int_str_nat)
  moreover
  have "readlines (one_per_line (i # ids)) = (str_nat (nat i) @ [LF]) # readlines (one_per_line ids)"
    using str_nat_line [of "nat i"] by (simp add: one_per_line_Cons s readlines_line)
  ultimately show ?case
    using IH i str_nat_line [of "nat i"] by simp
qed

lemma load_ids_one_per_line:
  "\<forall>i\<in>set ids. 0 \<le> i \<and> length (str_int i) \<le> int_max_str_digits \<Longrightarrow>
   load_ids (Some (one_per_line ids)) = Inr (set ids)"
  by (simp add: load_ids_def universal_newlines_id no_CR_one_per_line load_lines_one_per_line)

text \<open>
  Two ways in which a line passes \<open>py_isdigit\<close> and is refused by \<open>py_int\<close>, so
  that the comprehension raises: a superscript digit, and a line of more decimal digits
  than the limit, which is what the ledger becomes when IDs are written to it without a
  line break often enough.
\<close>

lemma load_superscript_raises: "load_ids (Some [CHR 0xB2]) = Inl ValueError"
  by code_simp

lemma readlines_single: "s \<noteq> [] \<Longrightarrow> LF \<notin> set s \<Longrightarrow> readlines s = [s]"
proof (induction s)
  case Nil
  then show ?case by simp
next
  case (Cons a s)
  show ?case
  proof (cases "s = []")
    case True
    with Cons.prems show ?thesis by simp
  next
    case False
    with Cons show ?thesis by auto
  qed
qed

lemma py_strip_decimal:
  assumes "s \<noteq> []" "list_all is_decimal s"
  shows "py_strip s = s"
proof -
  from assms have "is_decimal (hd s)" and "is_decimal (last s)"
    by (simp_all add: list_all_iff)
  then have h: "\<not> py_isspace (hd s)" and l: "\<not> py_isspace (last s)"
    by (simp_all add: decimal_not_space)
  from assms(1) h have 1: "dropWhile py_isspace s = s"
    by (cases s) simp_all
  from assms(1) l have 2: "dropWhile py_isspace (rev s) = rev s"
    by (cases "rev s") (simp_all add: last_rev [symmetric] del: last_rev)
  show ?thesis by (simp only: py_strip_def 1 2 rev_rev_ident)
qed

lemma load_long_line_raises:
  assumes "list_all is_decimal s" "int_max_str_digits < length s"
  shows "load_ids (Some s) = Inl ValueError"
proof -
  from assms(2) have ne: "s \<noteq> []" by auto
  from assms(1) have "LF \<notin> set s" "CR \<notin> set s"
    using decimal_not_newline by (auto simp: list_all_iff)
  with ne have lines: "readlines (universal_newlines s) = [s]"
    by (simp add: universal_newlines_id readlines_single)
  from assms(1) ne have "py_isdigit s"
    by (auto simp: py_isdigit_def is_digit_char_def list_all_iff)
  moreover from assms(2) have "py_int s = Inl ValueError" by (simp add: py_int_def)
  ultimately show ?thesis
    using py_strip_decimal [OF ne assms(1)] lines by (simp add: load_ids_def)
qed

section \<open>Facts about the loop\<close>

lemmas step_defs = download_media_step_def call_download_media_def saved_def emit_def fp_write_def Let_def

lemma step_ids_mono: "downloaded_ids st \<subseteq> downloaded_ids (result_state (download_media_step client st m))"
  by (auto simp: step_defs split: outcome.splits exn.splits)

lemma step_inv: "ledger_inv st \<Longrightarrow> ledger_inv (result_state (download_media_step client st m))"
  by (auto simp: ledger_inv_def step_defs dest: str_int_inj split: outcome.splits exn.splits)

text \<open>An invariant of the body is an invariant of the loop, however the loop ends.\<close>

lemma loop_induct:
  assumes step: "\<And>st m. P st \<Longrightarrow> P (result_state (download_media_step client st m))"
    and start: "P st"
  shows "P (result_state (download_media_loop client st ms))"
  using start
proof (induction ms arbitrary: st)
  case Nil
  then show ?case by simp
next
  case (Cons m ms)
  show ?case
  proof (cases "download_media_step client st m")
    case (Normal st')
    with step [OF Cons.prems, of m] have "P st'" by simp
    with Normal Cons.IH [of st'] show ?thesis by simp
  next
    case (Raised e st')
    with step [OF Cons.prems, of m] show ?thesis by simp
  qed
qed

lemma loop_ids_mono: "downloaded_ids st \<subseteq> downloaded_ids (result_state (download_media_loop client st ms))"
proof (rule loop_induct [where P = "\<lambda>s. downloaded_ids st \<subseteq> downloaded_ids s"])
  fix s :: state and m assume "downloaded_ids st \<subseteq> downloaded_ids s"
  with step_ids_mono [of s client m]
  show "downloaded_ids st \<subseteq> downloaded_ids (result_state (download_media_step client s m))" by blast
qed simp

lemma loop_inv: "ledger_inv st \<Longrightarrow> ledger_inv (result_state (download_media_loop client st ms))"
  by (rule loop_induct [where P = ledger_inv]) (rule step_inv)

lemma initial_inv: "ledger_inv (initial_state cid p d ids)"
  by (simp add: ledger_inv_def initial_state_def open_append_def)

lemma step_ids_bound:
  "downloaded_ids (result_state (download_media_step client st m)) \<subseteq> insert (message_id m) (downloaded_ids st)"
  by (auto simp: step_defs split: outcome.splits exn.splits)

lemma step_files_grow:
  "set (existing_files st) \<subseteq> set (existing_files (result_state (download_media_step client st m)))"
  by (auto simp: step_defs split: outcome.splits exn.splits)

lemma loop_ids_bound:
  "downloaded_ids (result_state (download_media_loop client st ms)) \<subseteq> downloaded_ids st \<union> message_id ` set ms"
proof (induction ms arbitrary: st)
  case Nil
  show ?case by simp
next
  case (Cons m ms)
  show ?case
  proof (cases "download_media_step client st m")
    case (Normal st')
    with step_ids_bound [of client st m] have "downloaded_ids st' \<subseteq> insert (message_id m) (downloaded_ids st)"
      by simp
    with Normal Cons.IH [of st'] show ?thesis by auto
  next
    case (Raised e st')
    with step_ids_bound [of client st m] show ?thesis by auto
  qed
qed

lemma loop_files_grow:
  "set (existing_files st) \<subseteq> set (existing_files (result_state (download_media_loop client st ms)))"
proof (rule loop_induct [where P = "\<lambda>s. set (existing_files st) \<subseteq> set (existing_files s)"])
  fix s :: state and m assume "set (existing_files st) \<subseteq> set (existing_files s)"
  with step_files_grow [of s client m]
  show "set (existing_files st) \<subseteq> set (existing_files (result_state (download_media_step client s m)))"
    by blast
qed simp

lemma file_exists_mono: "file_exists i fs \<Longrightarrow> set fs \<subseteq> set fs' \<Longrightarrow> file_exists i fs'"
  by (auto simp: file_exists_def list_ex_iff)

lemma step_probe:
  assumes "media m" "message_id m \<notin> downloaded_ids st" "file_exists (message_id m) (existing_files st)"
  shows "download_media_step client st m =
           Normal (st\<lparr>events := events st @ [Print (''[SKIP] File for message '' @ str_int (message_id m)
                                                    @ '' already exists.'')],
                      downloaded_ids := insert (message_id m) (downloaded_ids st),
                      record_fp := fp_write (record_fp st) (str_int (message_id m))\<rparr>)"
  using assms by (simp add: download_media_step_def emit_def Let_def)

lemma str_values:
  "str_int 2 = ''2''" "str_int 3 = ''3''" "str_int 5 = ''5''" "str_int 77 = ''77''"
  "str_nat 0 = ''0''" "str_nat 1 = ''1''" "str_nat 2 = ''2''"
  by code_simp+

lemma step_keeps_opened:
  "file_content (record_fp (result_state (download_media_step client st m))) = file_content (record_fp st)
   \<and> closed (record_fp (result_state (download_media_step client st m))) = closed (record_fp st)"
  by (auto simp: step_defs split: outcome.splits exn.splits)

lemma loop_keeps_opened:
  "file_content (record_fp (result_state (download_media_loop client st ms))) = file_content (record_fp st)
   \<and> closed (record_fp (result_state (download_media_loop client st ms))) = closed (record_fp st)"
proof (rule loop_induct [where P = "\<lambda>s. file_content (record_fp s) = file_content (record_fp st)
                                        \<and> closed (record_fp s) = closed (record_fp st)"])
  fix s :: state and m
  assume "file_content (record_fp s) = file_content (record_fp st) \<and> closed (record_fp s) = closed (record_fp st)"
  with step_keeps_opened [of client s m]
  show "file_content (record_fp (result_state (download_media_step client s m))) = file_content (record_fp st)
        \<and> closed (record_fp (result_state (download_media_step client s m))) = closed (record_fp st)"
    by simp
qed simp

lemma step_settle_buffered:
  assumes "message_id m \<notin> downloaded_ids st"
    and "message_id m \<in> downloaded_ids (result_state (download_media_step client st m))"
  shows "buffer (record_fp (result_state (download_media_step client st m)))
           = buffer (record_fp st) @ [str_int (message_id m)]"
  using assms by (auto simp: step_defs split: outcome.splits exn.splits if_splits)

lemma file_may_hold_prefix:
  assumes "file_may_hold fp c"
  shows "\<exists>k. c = file_content fp @ take k (concat (buffer fp))"
proof (cases "length (concat (buffer fp)) < chunk_size")
  case True
  with assms have "c = file_content fp @ take 0 (concat (buffer fp))"
    by (simp add: file_may_hold_def Let_def)
  then show ?thesis ..
next
  case False
  with assms have "list_ex (\<lambda>k. c = file_content fp @ take k (concat (buffer fp)))
                     [0..<Suc (length (concat (buffer fp)))]"
    by (simp add: file_may_hold_def Let_def del: upt_Suc)
  then show ?thesis unfolding list_ex_iff by blast
qed

lemma completed_run:
  assumes "load_ids (record_file d) = Inr ids"
    and "download_media_loop client (initial_state cid p d ids) msgs = Normal st1"
  shows "download_media client cid p d msgs = Completed (finish st1)
         \<and> closed (record_fp (finish st1)) \<and> buffer (record_fp (finish st1)) = []
         \<and> file_content (record_fp (finish st1))
             = (case record_file d of None \<Rightarrow> [] | Some old \<Rightarrow> old) @ concat (buffer (record_fp st1))"
proof -
  have "file_content (record_fp st1) = file_content (record_fp (initial_state cid p d ids))"
    using loop_keeps_opened [of client "initial_state cid p d ids" msgs] assms(2) by simp
  then have "file_content (record_fp st1) = (case record_file d of None \<Rightarrow> [] | Some old \<Rightarrow> old)"
    by (simp add: initial_state_def open_append_def)
  with assms show ?thesis
    by (simp add: download_media_def finish_def emit_def fp_close_def)
qed

text \<open>What the body does when a fetch fails, and how often the fetcher is called.\<close>

lemma str_int_no_newline: "LF \<notin> set (str_int i)"
proof -
  have "\<And>n. LF \<notin> set (str_nat n)" using str_nat_line by simp
  then show ?thesis by (simp add: str_int_def LF_def)
qed

lemma step_first_error_logged:
  assumes "media m" "message_id m \<notin> downloaded_ids st"
    and "\<not> file_exists (message_id m) (existing_files st)"
    and "client (message_id m) 0 = Raise (Exception reason)"
  shows "download_media_step client st m =
           Normal (emit [DownloadMedia (message_id m),
                         Print (''Error downloading message '' @ str_int (message_id m) @ '': '' @ reason)] st)"
  using assms by (simp add: step_defs)

lemma step_retry_error_propagates:
  assumes "media m" "message_id m \<notin> downloaded_ids st"
    and "\<not> file_exists (message_id m) (existing_files st)"
    and "client (message_id m) 0 = Raise (FloodWaitError secs)"
    and "client (message_id m) 1 = Raise e"
  shows "download_media_step client st m =
           Raised e (emit [DownloadMedia (message_id m),
                           Print (''Rate limit reached, waiting '' @ str_int secs @ '' seconds...''),
                           Sleep secs, DownloadMedia (message_id m)] st)"
  using assms by (simp add: step_defs)

lemma step_calls:
  "count_list (events (result_state (download_media_step client st m))) (DownloadMedia i)
     \<le> count_list (events st) (DownloadMedia i) + (if i = message_id m then 2 else 0)"
  by (auto simp: step_defs split: outcome.splits exn.splits)

lemma loop_calls:
  "distinct (map message_id ms) \<Longrightarrow>
   count_list (events (result_state (download_media_loop client st ms))) (DownloadMedia i)
     \<le> count_list (events st) (DownloadMedia i) + (if i \<in> message_id ` set ms then 2 else 0)"
proof (induction ms arbitrary: st)
  case Nil
  show ?case by simp
next
  case (Cons m ms)
  then have d: "distinct (map message_id ms)" and n: "message_id m \<notin> message_id ` set ms" by auto
  show ?case
  proof (cases "download_media_step client st m")
    case (Normal st')
    with step_calls [of client st m i]
    have "count_list (events st') (DownloadMedia i)
            \<le> count_list (events st) (DownloadMedia i) + (if i = message_id m then 2 else 0)" by simp
    with Cons.IH [OF d, of st'] Normal n show ?thesis by (auto split: if_splits)
  next
    case (Raised e st')
    with step_calls [of client st m i] show ?thesis by (auto split: if_splits)
  qed
qed

lemma loop_calls_at_most_two:
  "distinct (map message_id ms) \<Longrightarrow>
   count_list (events (result_state (download_media_loop client (initial_state cid p d ids) ms)))
     (DownloadMedia i) \<le> 2"
  using loop_calls [of ms client "initial_state cid p d ids" i]
  by (simp add: initial_state_def split: if_splits)

lemma step_no_call_when_recorded:
  "i \<in> downloaded_ids st \<Longrightarrow>
   count_list (events (result_state (download_media_step client st m))) (DownloadMedia i)
     = count_list (events st) (DownloadMedia i)"
  by (auto simp: step_defs split: outcome.splits exn.splits)

lemma loop_no_call_when_recorded:
  assumes "i \<in> downloaded_ids st"
  shows "count_list (events (result_state (download_media_loop client st ms))) (DownloadMedia i)
           = count_list (events st) (DownloadMedia i)"
proof (rule loop_induct [where P = "\<lambda>s. i \<in> downloaded_ids s
          \<and> count_list (events s) (DownloadMedia i) = count_list (events st) (DownloadMedia i)",
        THEN conjunct2])
  fix s :: state and m
  assume "i \<in> downloaded_ids s
          \<and> count_list (events s) (DownloadMedia i) = count_list (events st) (DownloadMedia i)"
  with step_no_call_when_recorded [of i s client m] step_ids_mono [of s client m]
  show "i \<in> downloaded_ids (result_state (download_media_step client s m))
        \<and> count_list (events (result_state (download_media_step client s m))) (DownloadMedia i)
            = count_list (events st) (DownloadMedia i)"
    by auto
next
  from assms show "i \<in> downloaded_ids st
      \<and> count_list (events st) (DownloadMedia i) = count_list (events st) (DownloadMedia i)" by simp
qed

section \<open>The claims\<close>

text \<open>
  C9. Within a single run the in-memory set of settled IDs only grows: one pass of the
  loop body never removes an entry, and whatever set the run loaded is still contained
  in the set when the loop ends, normally or with an exception. No message ID is written
  to the ledger handle more than once: the strings written during the run are the
  printed forms of a list of IDs without repetition.
\<close>

theorem settled_set_grows_no_duplicate_write:
  "downloaded_ids st \<subseteq> downloaded_ids (result_state (download_media_step client st m))
   \<and> ids \<subseteq> downloaded_ids (result_state (download_media_loop client (initial_state cid p d ids) msgs))
   \<and> (\<exists>js. distinct js
          \<and> buffer (record_fp (result_state (download_media_loop client (initial_state cid p d ids) msgs)))
              = map str_int js)"
proof -
  let ?st = "result_state (download_media_loop client (initial_state cid p d ids) msgs)"
  have "ledger_inv ?st" by (rule loop_inv) (rule initial_inv)
  then have d: "distinct (buffer (record_fp ?st))"
    and sub: "set (buffer (record_fp ?st)) \<subseteq> range str_int"
    by (auto simp: ledger_inv_def)
  from sub have "\<forall>w\<in>set (buffer (record_fp ?st)). \<exists>j. w = str_int j" by auto
  then have "\<exists>js. buffer (record_fp ?st) = map str_int js" by (simp only: ex_map_conv)
  then obtain js where js: "buffer (record_fp ?st) = map str_int js" ..
  with d have "distinct js" by (simp add: distinct_map)
  with js have "\<exists>js. distinct js \<and> buffer (record_fp ?st) = map str_int js" by blast
  moreover have "ids \<subseteq> downloaded_ids ?st"
    using loop_ids_mono [of "initial_state cid p d ids" client msgs] by (simp add: initial_state_def)
  ultimately show ?thesis using step_ids_mono [of st client m] by blast
qed

text \<open>
  C6. Probe precedence. Take a run that loaded the set \<open>ids\<close> and took the snapshot
  \<open>listdir d\<close>, and a message with media whose ID is not in the loaded set and for which
  the snapshot has a file named after the ID. Whenever the loop reaches that message,
  after any messages with other IDs, the body settles it without calling the fetcher:
  the new state differs from the old one only by the printed line, the ID added to the
  in-memory set and the ID written to the ledger handle. The count is not incremented
  and no fetcher call is recorded.
\<close>

theorem probe_settles_without_fetch:
  assumes "media m"
    and "message_id m \<notin> ids"
    and "file_exists (message_id m) (listdir d)"
    and "message_id m \<notin> message_id ` set before"
    and "download_media_loop client (initial_state cid p d ids) before = Normal st"
  shows "download_media_step client st m =
           Normal (st\<lparr>events := events st @ [Print (''[SKIP] File for message '' @ str_int (message_id m)
                                                    @ '' already exists.'')],
                      downloaded_ids := insert (message_id m) (downloaded_ids st),
                      record_fp := fp_write (record_fp st) (str_int (message_id m))\<rparr>)"
proof -
  let ?st0 = "initial_state cid p d ids"
  from assms(5) have st: "result_state (download_media_loop client ?st0 before) = st" by simp
  have "downloaded_ids st \<subseteq> downloaded_ids ?st0 \<union> message_id ` set before"
    using loop_ids_bound [of client ?st0 before] st by simp
  with assms(2,4) have notin: "message_id m \<notin> downloaded_ids st"
    by (auto simp: initial_state_def)
  have "set (existing_files ?st0) \<subseteq> set (existing_files st)"
    using loop_files_grow [of ?st0 client before] st by simp
  with assms(3) have "file_exists (message_id m) (existing_files st)"
    by (auto simp: initial_state_def intro: file_exists_mono)
  with assms(1) notin show ?thesis by (rule step_probe)
qed

theorem probe_settles_without_fetch_witness:
  "media \<lparr>message_id = 2, media = True\<rparr>
   \<and> message_id \<lparr>message_id = 2, media = True\<rparr> \<notin> {}
   \<and> file_exists (message_id \<lparr>message_id = 2, media = True\<rparr>) (listdir artifact_dir)
   \<and> message_id \<lparr>message_id = 2, media = True\<rparr> \<notin> message_id ` set [\<lparr>message_id = 3, media = True\<rparr>]
   \<and> download_media_loop id_named (initial_state 77 ''downloads/77'' artifact_dir {})
         [\<lparr>message_id = 3, media = True\<rparr>] = Normal after_message_3
   \<and> count after_message_3 = 1
   \<and> download_media_step id_named after_message_3 \<lparr>message_id = 2, media = True\<rparr>
       = Normal (after_message_3
                  \<lparr>events := events after_message_3 @ [Print ''[SKIP] File for message 2 already exists.''],
                   downloaded_ids := {2, 3},
                   record_fp := \<lparr>file_content = [], buffer = [''3'', ''2''], closed = False\<rparr>\<rparr>)"
proof -
  have h1: "media \<lparr>message_id = 2, media = True\<rparr>" by simp
  have h2: "message_id \<lparr>message_id = 2, media = True\<rparr> \<notin> {}" by simp
  have h3: "file_exists (message_id \<lparr>message_id = 2, media = True\<rparr>) (listdir artifact_dir)"
    by code_simp
  have h4: "message_id \<lparr>message_id = 2, media = True\<rparr> \<notin> message_id ` set [\<lparr>message_id = 3, media = True\<rparr>]"
    by simp
  have h5: "download_media_loop id_named (initial_state 77 ''downloads/77'' artifact_dir {})
              [\<lparr>message_id = 3, media = True\<rparr>] = Normal after_message_3"
    by code_simp
  have st: "count after_message_3 = 1" "downloaded_ids after_message_3 = {3}"
    "record_fp after_message_3 = \<lparr>file_content = [], buffer = [''3''], closed = False\<rparr>"
    by code_simp+
  show ?thesis
    using probe_settles_without_fetch [OF h1 h2 h3 h4 h5] h1 h2 h3 h4 h5 st
    by (simp add: fp_write_def str_values)
qed

text \<open>
  C10. A message whose first fetch raises a rate-limit error and whose retry then saves
  a file leaves the engine in the state that a message whose first fetch saves the same
  file leaves it in: the same set, file list, count, ledger handle and directory. The
  count went up by one, the ID was added to the set and written to the ledger handle
  once, and the file list was extended by the one basename.
\<close>

theorem retry_success_same_as_direct:
  assumes "media m"
    and "message_id m \<notin> downloaded_ids st"
    and "\<not> file_exists (message_id m) (existing_files st)"
    and "retrying (message_id m) 0 = Raise (FloodWaitError secs)"
    and "retrying (message_id m) 1 = Path path"
    and "direct (message_id m) 0 = Path path"
  shows "\<exists>s1 s2. download_media_step retrying st m = Normal s1
            \<and> download_media_step direct st m = Normal s2
            \<and> downloaded_ids s1 = downloaded_ids s2 \<and> existing_files s1 = existing_files s2
            \<and> count s1 = count s2 \<and> record_fp s1 = record_fp s2 \<and> disk_files s1 = disk_files s2
            \<and> count s1 = count st + 1
            \<and> downloaded_ids s1 = insert (message_id m) (downloaded_ids st)
            \<and> buffer (record_fp s1) = buffer (record_fp st) @ [str_int (message_id m)]
            \<and> existing_files s1 = existing_files st @ [basename path]"
  using assms by (simp add: step_defs)


theorem retry_success_same_as_direct_witness:
  "\<exists>s1 s2. download_media_step flood_then_saved (initial_state 77 ''downloads/77'' empty_dir {})
               \<lparr>message_id = 2, media = True\<rparr> = Normal s1
          \<and> download_media_step id_named (initial_state 77 ''downloads/77'' empty_dir {})
               \<lparr>message_id = 2, media = True\<rparr> = Normal s2
          \<and> downloaded_ids s1 = downloaded_ids s2 \<and> existing_files s1 = existing_files s2
          \<and> count s1 = count s2 \<and> record_fp s1 = record_fp s2 \<and> disk_files s1 = disk_files s2
          \<and> count s1 = 1 \<and> downloaded_ids s1 = {2}
          \<and> buffer (record_fp s1) = [''2''] \<and> existing_files s1 = [''2.jpg'']"
proof -
  let ?m = "\<lparr>message_id = 2, media = True\<rparr>"
  let ?st = "initial_state 77 ''downloads/77'' empty_dir {}"
  have h1: "media ?m" by simp
  have h2: "message_id ?m \<notin> downloaded_ids ?st" by (simp add: initial_state_def)
  have h3: "\<not> file_exists (message_id ?m) (existing_files ?st)"
    by (simp add: initial_state_def listdir_def empty_dir_def file_exists_def)
  have h4: "flood_then_saved (message_id ?m) 0 = Raise (FloodWaitError 5)"
    by (simp add: flood_then_saved_def)
  have h5: "flood_then_saved (message_id ?m) 1 = Path ''downloads/77/2.jpg''"
    by (simp add: flood_then_saved_def id_named_def str_values)
  have h6: "id_named (message_id ?m) 0 = Path ''downloads/77/2.jpg''"
    by (simp add: id_named_def str_values)
  have st: "count ?st = 0 \<and> downloaded_ids ?st = {} \<and> buffer (record_fp ?st) = [] \<and> existing_files ?st = []"
    by (simp add: initial_state_def listdir_def empty_dir_def open_append_def)
  have b: "basename ''downloads/77/2.jpg'' = ''2.jpg''" by (simp add: basename_def)
  have s: "str_int 2 = ''2''" by (simp add: str_values)
  show ?thesis
    using retry_success_same_as_direct
            [of ?m ?st flood_then_saved 5 "''downloads/77/2.jpg''" id_named, OF h1 h2 h3 h4 h5 h6] st b s by simp
qed




text \<open>
  C5, as the code has it. A message that the body of the loop settles has its ID written
  to the append handle before the next message is taken, but the handle is never
  flushed, so the write need not be in the file then. Whatever the file holds when the
  loop ends, normally or with an exception, starts with what the file held before the
  run and goes on with a leading part of the run's writes, in their order. When the
  loop ends without an exception the handle is closed, and the file then holds what it
  held before the run followed by all the writes of the run.
\<close>

theorem ledger_writes_buffered_until_close:
  "(message_id m \<notin> downloaded_ids st
        \<and> message_id m \<in> downloaded_ids (result_state (download_media_step client st m))
      \<longrightarrow> buffer (record_fp (result_state (download_media_step client st m)))
            = buffer (record_fp st) @ [str_int (message_id m)])
   \<and> (file_may_hold (record_fp (result_state (download_media_loop client (initial_state cid p d ids) msgs))) c
      \<longrightarrow> (\<exists>k. c = (case record_file d of None \<Rightarrow> [] | Some old \<Rightarrow> old)
                  @ take k (concat (buffer (record_fp (result_state
                      (download_media_loop client (initial_state cid p d ids) msgs)))))))
   \<and> (load_ids (record_file d) = Inr ids
        \<and> download_media_loop client (initial_state cid p d ids) msgs = Normal st1
      \<longrightarrow> download_media client cid p d msgs = Completed (finish st1)
          \<and> closed (record_fp (finish st1))
          \<and> file_may_hold (record_fp (finish st1)) c
              = (c = (case record_file d of None \<Rightarrow> [] | Some old \<Rightarrow> old) @ concat (buffer (record_fp st1))))"
proof -
  let ?prior = "case record_file d of None \<Rightarrow> [] | Some old \<Rightarrow> old"
  let ?st = "result_state (download_media_loop client (initial_state cid p d ids) msgs)"
  have base: "file_content (record_fp ?st) = ?prior"
    using loop_keeps_opened [of client "initial_state cid p d ids" msgs]
    by (simp add: initial_state_def open_append_def)
  have two: "file_may_hold (record_fp ?st) c \<longrightarrow> (\<exists>k. c = ?prior @ take k (concat (buffer (record_fp ?st))))"
    using file_may_hold_prefix [of "record_fp ?st" c] base by simp
  have three: "load_ids (record_file d) = Inr ids
        \<and> download_media_loop client (initial_state cid p d ids) msgs = Normal st1
      \<longrightarrow> download_media client cid p d msgs = Completed (finish st1)
          \<and> closed (record_fp (finish st1))
          \<and> file_may_hold (record_fp (finish st1)) c = (c = ?prior @ concat (buffer (record_fp st1)))"
  proof
    assume h: "load_ids (record_file d) = Inr ids
        \<and> download_media_loop client (initial_state cid p d ids) msgs = Normal st1"
    with completed_run [of d ids client cid p msgs st1]
    have r: "download_media client cid p d msgs = Completed (finish st1)"
      "closed (record_fp (finish st1))" "buffer (record_fp (finish st1)) = []"
      "file_content (record_fp (finish st1)) = ?prior @ concat (buffer (record_fp st1))"
      by simp_all
    from r(3,4) have "file_may_hold (record_fp (finish st1)) c = (c = ?prior @ concat (buffer (record_fp st1)))"
      by (simp add: file_may_hold_def Let_def chunk_size_def)
    with r(1,2) show "download_media client cid p d msgs = Completed (finish st1)
          \<and> closed (record_fp (finish st1))
          \<and> file_may_hold (record_fp (finish st1)) c = (c = ?prior @ concat (buffer (record_fp st1)))"
      by simp
  qed
  from step_settle_buffered [of m st client] two three show ?thesis by blast
qed

theorem ledger_writes_buffered_until_close_witness:
  "message_id \<lparr>message_id = 2, media = True\<rparr> \<notin> downloaded_ids (initial_state 77 ''downloads/77'' empty_dir {})
   \<and> message_id \<lparr>message_id = 2, media = True\<rparr>
        \<in> downloaded_ids (result_state (download_media_step id_named
              (initial_state 77 ''downloads/77'' empty_dir {}) \<lparr>message_id = 2, media = True\<rparr>))
   \<and> buffer (record_fp (result_state (download_media_step id_named
              (initial_state 77 ''downloads/77'' empty_dir {}) \<lparr>message_id = 2, media = True\<rparr>))) = [''2'']
   \<and> load_ids (record_file empty_dir) = Inr {}
   \<and> download_media_loop id_named (initial_state 77 ''downloads/77'' empty_dir {}) scenario_messages
       = Normal loop_end
   \<and> file_may_hold (record_fp loop_end) []
   \<and> (\<exists>k. [] = (case record_file empty_dir of None \<Rightarrow> [] | Some old \<Rightarrow> old)
               @ take k (concat (buffer (record_fp loop_end))))
   \<and> download_media id_named 77 ''downloads/77'' empty_dir scenario_messages = Completed (finish loop_end)
   \<and> closed (record_fp (finish loop_end))
   \<and> file_may_hold (record_fp (finish loop_end)) ''23''"
proof -
  have h1: "message_id \<lparr>message_id = 2, media = True\<rparr>
              \<notin> downloaded_ids (initial_state 77 ''downloads/77'' empty_dir {})"
    by code_simp
  have h2: "message_id \<lparr>message_id = 2, media = True\<rparr>
        \<in> downloaded_ids (result_state (download_media_step id_named
              (initial_state 77 ''downloads/77'' empty_dir {}) \<lparr>message_id = 2, media = True\<rparr>))"
    by code_simp
  have h3: "load_ids (record_file empty_dir) = Inr {}" by code_simp
  have h4: "download_media_loop id_named (initial_state 77 ''downloads/77'' empty_dir {}) scenario_messages
       = Normal loop_end"
    by code_simp
  have h5: "file_may_hold (record_fp loop_end) []" by code_simp
  have v: "buffer (record_fp (initial_state 77 ''downloads/77'' empty_dir {})) = []"
    "str_int (message_id \<lparr>message_id = 2, media = True\<rparr>) = ''2''"
    "record_file empty_dir = None" "concat (buffer (record_fp loop_end)) = ''23''"
    by code_simp+
  have loop: "result_state (download_media_loop id_named (initial_state 77 ''downloads/77'' empty_dir {})
                  scenario_messages) = loop_end"
    using h4 by simp
  have held: "\<exists>k. [] = (case record_file empty_dir of None \<Rightarrow> [] | Some old \<Rightarrow> old)
                    @ take k (concat (buffer (record_fp loop_end)))"
    using ledger_writes_buffered_until_close [of "\<lparr>message_id = 2, media = True\<rparr>"
        "initial_state 77 ''downloads/77'' empty_dir {}" id_named 77 "''downloads/77''" empty_dir "{}"
        scenario_messages "[]" loop_end]
      h5 loop
    by simp
  show ?thesis
    using ledger_writes_buffered_until_close [of "\<lparr>message_id = 2, media = True\<rparr>"
        "initial_state 77 ''downloads/77'' empty_dir {}" id_named 77 "''downloads/77''" empty_dir "{}"
        scenario_messages "''23''" loop_end]
      h1 h2 h3 h4 h5 v held
    by simp
qed

text \<open>
  C5 as stated fails: when the body is done with message 2, which it has settled by a
  download, the ID has been written to the handle and the file is still empty.
\<close>

theorem write_not_flushed_counterexample:
  "download_media_step id_named (initial_state 77 ''downloads/77'' empty_dir {}) \<lparr>message_id = 2, media = True\<rparr>
     = Normal after_message_2
   \<and> downloaded_ids after_message_2 = {2}
   \<and> buffer (record_fp after_message_2) = [''2'']
   \<and> file_may_hold (record_fp after_message_2) []
   \<and> \<not> file_may_hold (record_fp after_message_2) ''2''"
  by code_simp

text \<open>
  C1. The scenario run, files named after the ID: the run completes and leaves a ledger
  file that reads \<open>23\<close>. It has no line break, and reading it line by line gives the
  single line \<open>23\<close>: the two IDs were written without a terminator.
\<close>

theorem ledger_ids_run_together:
  "download_media id_named 77 ''downloads/77'' empty_dir scenario_messages = Completed first_end
   \<and> record_file (dir_after first_end) = Some ''23''
   \<and> LF \<notin> set ''23''
   \<and> readlines (universal_newlines ''23'') = [''23'']"
  by code_simp

text \<open>
  C2. The scenario run twice, the channel and the directory untouched in between. The
  second run counts no download, because the files are found by name, yet it writes both
  IDs again: the set that loads from the ledger is \<open>{23}\<close> after the first run and
  \<open>{2323}\<close> after the second.
\<close>

theorem second_run_changes_ledger_set:
  "download_media id_named 77 ''downloads/77'' empty_dir scenario_messages = Completed first_end
   \<and> download_media id_named 77 ''downloads/77'' (dir_after first_end) scenario_messages = Completed second_end
   \<and> count second_end = 0
   \<and> load_ids (record_file (dir_after first_end)) = Inr {23}
   \<and> load_ids (record_file (dir_after second_end)) = Inr {2323}"
  by code_simp

text \<open>
  C3. Message 2 is saved, message 3 answers the first fetch with a rate limit and the
  retry with an error, message 4 follows. The error of the retry leaves the function:
  the run ends with that exception, no error line was printed and message 4 was never
  fetched.
\<close>

theorem retry_failure_aborts_run:
  "download_media flood_then_error 77 ''downloads/77'' empty_dir longer_messages
     = RunError (Exception ''timed out'') retry_failure_end
   \<and> DownloadMedia 4 \<notin> set (events retry_failure_end)
   \<and> filter (\<lambda>e. case e of Print l \<Rightarrow> startswith l ''Error'' | _ \<Rightarrow> False) (events retry_failure_end) = []"
  by code_simp

text \<open>
  C4. The same run: when the exception of the retry leaves the function the append
  handle has not been closed, and the ID of message 2 is still in its buffer.
\<close>

theorem retry_failure_leaves_handle_open:
  "download_media flood_then_error 77 ''downloads/77'' empty_dir longer_messages
     = RunError (Exception ''timed out'') retry_failure_end
   \<and> closed (record_fp retry_failure_end) = False
   \<and> buffer (record_fp retry_failure_end) = [''2'']
   \<and> file_content (record_fp retry_failure_end) = []"
  by code_simp

text \<open>
  C7. The scenario run twice with files named after the media. The first run settles
  message 2. The second run loads \<open>{23}\<close> from the ledger, finds no file named after
  the ID, and calls the fetcher for message 2 again; it counts two downloads.
\<close>

theorem settled_message_fetched_again:
  "download_media media_named 77 ''downloads/77'' empty_dir scenario_messages = Completed media_first_end
   \<and> 2 \<in> downloaded_ids media_first_end
   \<and> download_media media_named 77 ''downloads/77'' (dir_after media_first_end) scenario_messages
       = Completed media_second_end
   \<and> load_ids (record_file (dir_after media_first_end)) = Inr {23}
   \<and> count_list (events media_second_end) (DownloadMedia 2) = 1
   \<and> count media_second_end = 2"
  by code_simp


end
